theory Spec2Isabelle
  imports Main
begin

section \<open>Python strings\<close>

text \<open>
  A Python \<open>str\<close> is a sequence of Unicode code points, so it is modelled as a list of
  natural numbers (one per code point), not as a list of 8-bit characters: the parser
  tests for glyphs well beyond ASCII and slices by code point.
\<close>

type_synonym ustr = "nat list"

definition lit :: "string \<Rightarrow> ustr" where
  \<comment> \<open>an ASCII literal of the source, as code points\<close>
  "lit s = map of_char s"

definition isspace :: "nat \<Rightarrow> bool" where
  \<comment> \<open>the code points that \<open>str.strip()\<close> removes (Python's Unicode whitespace)\<close>
  "isspace c \<longleftrightarrow>
     (9 \<le> c \<and> c \<le> 13) \<or> (28 \<le> c \<and> c \<le> 32) \<or> c = 133 \<or> c = 160 \<or> c = 5760 \<or>
     (8192 \<le> c \<and> c \<le> 8202) \<or> c = 8232 \<or> c = 8233 \<or> c = 8239 \<or> c = 8287 \<or> c = 12288"

definition lstrip :: "ustr \<Rightarrow> ustr" where
  "lstrip s = dropWhile isspace s"

definition rstrip :: "ustr \<Rightarrow> ustr" where
  "rstrip s = rev (dropWhile isspace (rev s))"

definition strip :: "ustr \<Rightarrow> ustr" where
  \<comment> \<open>\<open>s.strip()\<close>: whitespace removed at both ends\<close>
  "strip s = rstrip (lstrip s)"

definition startswith :: "ustr \<Rightarrow> ustr \<Rightarrow> bool" where
  "startswith s p \<longleftrightarrow> take (length p) s = p"

fun contains :: "ustr \<Rightarrow> ustr \<Rightarrow> bool" where
  \<comment> \<open>\<open>sub in s\<close>\<close>
  "contains sub [] = (sub = [])"
| "contains sub (c # cs) = (startswith (c # cs) sub \<or> contains sub cs)"

fun split_nl :: "ustr \<Rightarrow> ustr list" where
  \<comment> \<open>\<open>s.split('\n')\<close>: one more piece than there are newlines\<close>
  "split_nl [] = [[]]"
| "split_nl (c # cs) =
     (if c = 10 then [] # split_nl cs
      else (case split_nl cs of
              piece # pieces \<Rightarrow> (c # piece) # pieces
            | [] \<Rightarrow> [[c]]))"

text \<open>How \<open>str\<close> and an f-string render an integer: in decimal.\<close>

fun digits :: "nat \<Rightarrow> ustr" where
  "digits n = (if n < 10 then [48 + n] else digits (n div 10) @ [48 + n mod 10])"

declare digits.simps [simp del]

definition str_nat :: "nat \<Rightarrow> ustr" where
  "str_nat n = digits n"

definition str_int :: "int \<Rightarrow> ustr" where
  \<comment> \<open>how an f-string renders an integer\<close>
  "str_int i = (if i < 0 then 45 # digits (nat (- i)) else digits (nat i))"

section \<open>The result parser\<close>

text \<open>
  \<open>parse_email_list\<close> builds dictionaries with the keys \<open>subject\<close>, \<open>is_read\<close>,
  \<open>sender\<close>, \<open>date\<close> and \<open>preview\<close> only. A dictionary over these keys is a record of
  optional values: a key that is absent is \<open>None\<close>. Dictionary equality (used by
  \<open>not in\<close>) is then equality of records, and a dictionary is truthy when it has a key.
\<close>

record email =
  subject :: "ustr option"
  is_read :: "bool option"
  sender :: "ustr option"
  date :: "ustr option"
  preview :: "ustr option"

definition empty_dict :: email where
  "empty_dict = \<lparr>subject = None, is_read = None, sender = None, date = None, preview = None\<rparr>"

definition truthy :: "email \<Rightarrow> bool" where
  "truthy d \<longleftrightarrow> d \<noteq> empty_dict"

definition GLYPH_EQ :: nat where "GLYPH_EQ = 61"
definition GLYPH_BAR :: nat where "GLYPH_BAR = 9473"
definition GLYPH_MAIL :: nat where "GLYPH_MAIL = 128231"
definition GLYPH_WARN :: nat where "GLYPH_WARN = 9888"
definition GLYPH_UNREAD :: nat where "GLYPH_UNREAD = 9993"
definition GLYPH_READ :: nat where "GLYPH_READ = 10003"

definition is_skipped :: "ustr \<Rightarrow> bool" where
  "is_skipped line \<longleftrightarrow>
     line = [] \<or> startswith line [GLYPH_EQ] \<or> startswith line [GLYPH_BAR] \<or>
     startswith line [GLYPH_MAIL] \<or> startswith line [GLYPH_WARN]"

definition is_record_start :: "ustr \<Rightarrow> bool" where
  "is_record_start line \<longleftrightarrow> startswith line [GLYPH_UNREAD] \<or> startswith line [GLYPH_READ]"

definition append_if_truthy :: "email list \<Rightarrow> email \<Rightarrow> email list" where
  \<comment> \<open>\<open>if current_email: emails.append(current_email)\<close>\<close>
  "append_if_truthy emails current_email =
     (if truthy current_email then emails @ [current_email] else emails)"

text \<open>
  One iteration of the \<open>for line in lines\<close> loop on the state
  \<open>(emails, current_email)\<close>. The flag is \<open>True\<close> when the iteration ends in \<open>break\<close>.
\<close>

definition loop_body :: "email list \<times> email \<Rightarrow> ustr \<Rightarrow> (email list \<times> email) \<times> bool" where
  "loop_body st raw =
     (let emails = fst st; current_email = snd st; line = strip raw in
      if is_skipped line then (st, False)
      else if is_record_start line then
        ((append_if_truthy emails current_email,
          \<lparr>subject = Some (strip (drop 2 line)),
           is_read = Some (startswith line [GLYPH_READ]),
           sender = None, date = None, preview = None\<rparr>), False)
      else if startswith line (lit ''From:'') then
        ((emails, current_email\<lparr>sender := Some (strip (drop 5 line))\<rparr>), False)
      else if startswith line (lit ''Date:'') then
        ((emails, current_email\<lparr>date := Some (strip (drop 5 line))\<rparr>), False)
      else if startswith line (lit ''Preview:'') then
        ((emails, current_email\<lparr>preview := Some (strip (drop 8 line))\<rparr>), False)
      else if startswith line (lit ''TOTAL EMAILS'') then
        ((append_if_truthy emails current_email, current_email), True)
      else (st, False))"

fun for_lines :: "email list \<times> email \<Rightarrow> ustr list \<Rightarrow> email list \<times> email" where
  "for_lines st [] = st"
| "for_lines st (raw # lines) =
     (case loop_body st raw of
        (st', True) \<Rightarrow> st'
      | (st', False) \<Rightarrow> for_lines st' lines)"

definition final_append :: "email list \<times> email \<Rightarrow> email list" where
  \<comment> \<open>\<open>if current_email and current_email not in emails: emails.append(current_email)\<close>\<close>
  "final_append st =
     (let emails = fst st; current_email = snd st in
      if truthy current_email \<and> current_email \<notin> set emails
      then emails @ [current_email] else emails)"

definition parse_lines :: "ustr list \<Rightarrow> email list" where
  "parse_lines lines = final_append (for_lines ([], empty_dict) lines)"

definition parse_email_list :: "ustr \<Rightarrow> email list" where
  "parse_email_list output = parse_lines (split_nl output)"

subsection \<open>Kinds of lines\<close>

text \<open>
  The tests of the loop body, as predicates on a raw line: the terminator, a field line,
  and a non-blank line that no branch of the loop recognises. A line is inert when the
  loop skips it or does not recognise it.
\<close>

definition is_terminator :: "ustr \<Rightarrow> bool" where
  "is_terminator raw \<longleftrightarrow> startswith (strip raw) (lit ''TOTAL EMAILS'')"

definition is_field_line :: "ustr \<Rightarrow> bool" where
  "is_field_line raw \<longleftrightarrow>
     (let line = strip raw in
      startswith line (lit ''From:'') \<or> startswith line (lit ''Date:'') \<or>
      startswith line (lit ''Preview:''))"

definition unrecognized :: "ustr \<Rightarrow> bool" where
  "unrecognized raw \<longleftrightarrow>
     (let line = strip raw in
      \<not> is_skipped line \<and> \<not> is_record_start line \<and> \<not> startswith line (lit ''From:'') \<and>
      \<not> startswith line (lit ''Date:'') \<and> \<not> startswith line (lit ''Preview:'') \<and>
      \<not> startswith line (lit ''TOTAL EMAILS''))"

definition inert :: "ustr \<Rightarrow> bool" where
  "inert raw \<longleftrightarrow> is_skipped (strip raw) \<or> unrecognized raw"

definition set_field :: "ustr \<Rightarrow> email \<Rightarrow> email" where
  "set_field line current_email =
     (if startswith line (lit ''From:'') then current_email\<lparr>sender := Some (strip (drop 5 line))\<rparr>
      else if startswith line (lit ''Date:'') then current_email\<lparr>date := Some (strip (drop 5 line))\<rparr>
      else current_email\<lparr>preview := Some (strip (drop 8 line))\<rparr>)"

definition records_held :: "email list \<times> email \<Rightarrow> nat" where
  "records_held st = length (fst st) + (if truthy (snd st) then 1 else 0)"

text \<open>
  The first record of the result has no subject (or, while the result is still empty, the
  current dictionary is non-empty and has none).
\<close>

definition headless :: "email list \<times> email \<Rightarrow> bool" where
  "headless st \<longleftrightarrow>
     (case fst st of
        [] \<Rightarrow> truthy (snd st) \<and> subject (snd st) = None
      | e # es \<Rightarrow> subject e = None)"

subsection \<open>The documented line format\<close>

text \<open>
  The text that the listing scripts emit and that the specification documents: for each
  record a line with the read or unread glyph, a space and the subject, then one indented
  line per field that is present (\<open>From:\<close>, \<open>Date:\<close>, \<open>Preview:\<close>), and after the last
  record the line \<open>TOTAL EMAILS: n\<close>; every line ends with a newline. The serializer is
  written from the specification's words (the source has no serializer of its own); the
  parser above is written from the source.
\<close>

definition field_lines :: "ustr \<Rightarrow> ustr option \<Rightarrow> ustr list" where
  "field_lines name v = (case v of None \<Rightarrow> [] | Some s \<Rightarrow> [lit ''   '' @ name @ 32 # s])"

definition record_lines :: "email \<Rightarrow> ustr list" where
  "record_lines r =
     ((if is_read r = Some True then GLYPH_READ else GLYPH_UNREAD) # 32 #
        (case subject r of Some s \<Rightarrow> s | None \<Rightarrow> [])) #
     field_lines (lit ''From:'') (sender r) @ field_lines (lit ''Date:'') (date r) @
     field_lines (lit ''Preview:'') (preview r)"

definition documented_lines :: "email list \<Rightarrow> ustr list" where
  "documented_lines rs =
     concat (map record_lines rs) @ [lit ''TOTAL EMAILS: '' @ str_nat (length rs)]"

definition serialize_documented :: "email list \<Rightarrow> ustr" where
  "serialize_documented rs = concat (map (\<lambda>l. l @ [10]) (documented_lines rs))"

text \<open>
  A value is clean when it has no newline and \<open>strip\<close> leaves it unchanged; a record is
  well formed when it has a subject and a read flag and all its texts are clean.
\<close>

definition clean :: "ustr \<Rightarrow> bool" where
  "clean s \<longleftrightarrow> 10 \<notin> set s \<and> strip s = s"

definition clean_opt :: "ustr option \<Rightarrow> bool" where
  "clean_opt v = (case v of None \<Rightarrow> True | Some s \<Rightarrow> clean s)"

definition well_formed :: "email \<Rightarrow> bool" where
  "well_formed r \<longleftrightarrow>
     subject r \<noteq> None \<and> is_read r \<noteq> None \<and> clean_opt (subject r) \<and> clean_opt (sender r) \<and>
     clean_opt (date r) \<and> clean_opt (preview r)"

subsection \<open>Example inputs\<close>

definition example_output :: ustr where
  "example_output =
     GLYPH_UNREAD # lit '' Hello'' @ [10] @ lit ''   From: a@b.com'' @ [10] @
     lit ''   Date: 2024-01-01'' @ [10] @ lit ''TOTAL EMAILS: 1'' @ [10]"

definition hello_record :: email where
  "hello_record =
     \<lparr>subject = Some (lit ''Hello''), is_read = Some False, sender = Some (lit ''a@b.com''),
      date = Some (lit ''2024-01-01''), preview = None\<rparr>"

definition two_equal_starts :: ustr where
  "two_equal_starts = GLYPH_UNREAD # lit '' A'' @ [10] @ GLYPH_UNREAD # lit '' A''"

definition field_first :: ustr where
  "field_first = lit ''From: x'' @ [10] @ GLYPH_UNREAD # lit '' A''"

definition noisy_output :: ustr where
  "noisy_output = GLYPH_UNREAD # lit '' A'' @ [10] @ lit ''-- noise --'' @ [10] @ lit ''From: x''"

definition seen_record :: email where
  "seen_record =
     \<lparr>subject = Some [], is_read = Some True, sender = None, date = None,
      preview = Some (lit ''see you'')\<rparr>"

definition padded_record :: email where
  "padded_record =
     \<lparr>subject = Some (lit '' a''), is_read = Some False, sender = None, date = None,
      preview = None\<rparr>"

section \<open>The execution engine\<close>

definition MAX_RETRIES :: nat where "MAX_RETRIES = 3"
definition INITIAL_BACKOFF_SECONDS :: nat where "INITIAL_BACKOFF_SECONDS = 2"

text \<open>
  The exceptions the handlers of \<open>run_applescript\<close> tell apart, each with the text that
  \<open>str(e)\<close> gives where the source reads it. \<open>Exception m\<close> stands for every exception
  caught by \<open>except Exception\<close> that is neither a \<open>TimeoutExpired\<close> nor a
  \<open>FileNotFoundError\<close>, and for the ones the function raises itself.
\<close>

datatype pyexc = TimeoutExpired ustr | FileNotFoundError | Exception ustr

text \<open>
  Exceptions that are not instances of \<open>Exception\<close> (a cancelled task, an interrupt) pass
  through every handler of the function and are not part of the model.

  What one \<open>await asyncio.to_thread(subprocess.run, ...)\<close> does: it returns a completed
  process (\<open>returncode\<close>, \<open>stdout\<close>, \<open>stderr\<close>) or it raises. The interpreter is a
  parameter of the model: a function from the script and the attempt number to the outcome
  of that invocation.
\<close>

datatype outcome = Completed int ustr ustr | Raises pyexc

type_synonym interpreter = "ustr \<Rightarrow> nat \<Rightarrow> outcome"

text \<open>
  What a call does, in order: it enters \<open>async with _applescript_lock\<close>, invokes the
  interpreter for an attempt, sleeps for a number of seconds, leaves the \<open>async with\<close>.
\<close>

datatype event = Acquire | Invoke nat | Sleep nat | Release

record engine =
  trace :: "event list"
  last_exception :: "ustr option"

text \<open>
  How a block of statements ends: by \<open>return\<close>, by an exception that leaves the function,
  or normally (control goes on to the next iteration, or to the statement after the loop).
\<close>

datatype signal = Return ustr | Raise pyexc | Normal

definition script_error_text :: "int \<Rightarrow> ustr \<Rightarrow> ustr" where
  "script_error_text returncode stderr =
     (let error_msg = (if stderr \<noteq> [] then strip stderr else lit ''Unknown AppleScript error'')
      in lit ''AppleScript error (code '' @ str_int returncode @ lit ''): '' @ error_msg)"

definition timeout_text :: ustr where
  "timeout_text =
     lit ''AppleScript execution timed out after '' @ str_nat MAX_RETRIES @
     lit '' attempts. Apple Mail may be unresponsive.''"

definition not_found_text :: ustr where
  "not_found_text = lit ''osascript not found. This tool requires macOS with AppleScript support.''"

definition fallback_text :: "ustr option \<Rightarrow> ustr" where
  "fallback_text last_exc =
     lit ''AppleScript execution failed after '' @ str_nat MAX_RETRIES @ lit '' attempts: '' @
     (case last_exc of None \<Rightarrow> lit ''None'' | Some m \<Rightarrow> m)"

definition try_body :: "outcome \<Rightarrow> pyexc + ustr" where
  \<comment> \<open>the body of the \<open>try\<close>, after the invocation has ended with \<open>result\<close>\<close>
  "try_body result =
     (case result of
        Raises e \<Rightarrow> Inl e
      | Completed returncode stdout stderr \<Rightarrow>
          if returncode \<noteq> 0 then Inl (Exception (script_error_text returncode stderr))
          else Inr (strip stdout))"

definition attempt_body :: "interpreter \<Rightarrow> ustr \<Rightarrow> nat \<Rightarrow> engine \<Rightarrow> signal \<times> engine" where
  \<comment> \<open>one iteration of \<open>for attempt in range(MAX_RETRIES)\<close>\<close>
  "attempt_body osascript script attempt st =
     (let st1 = st\<lparr>trace := trace st @ [Invoke attempt]\<rparr> in
      case try_body (osascript script attempt) of
        Inr out \<Rightarrow> (Return out, st1)
      | Inl (TimeoutExpired m) \<Rightarrow>
          (let st2 = st1\<lparr>last_exception := Some m\<rparr>;
               backoff_time = INITIAL_BACKOFF_SECONDS * 2 ^ attempt
           in if attempt < MAX_RETRIES - 1
              then (Normal, st2\<lparr>trace := trace st2 @ [Sleep backoff_time]\<rparr>)
              else (Raise (Exception timeout_text), st2))
      | Inl FileNotFoundError \<Rightarrow> (Raise (Exception not_found_text), st1)
      | Inl (Exception m) \<Rightarrow>
          if contains (lit ''AppleScript error'') m then (Raise (Exception m), st1)
          else (Raise (Exception (lit ''AppleScript execution failed: '' @ m)), st1))"

fun for_attempts :: "interpreter \<Rightarrow> ustr \<Rightarrow> nat list \<Rightarrow> engine \<Rightarrow> signal \<times> engine" where
  "for_attempts osascript script [] st = (Normal, st)"
| "for_attempts osascript script (attempt # rest) st =
     (case attempt_body osascript script attempt st of
        (Normal, st') \<Rightarrow> for_attempts osascript script rest st'
      | (sig, st') \<Rightarrow> (sig, st'))"

definition run_applescript :: "interpreter \<Rightarrow> ustr \<Rightarrow> (pyexc + ustr) \<times> event list" where
  \<comment> \<open>the result or the exception of the call, and what it did, in order\<close>
  "run_applescript osascript script =
     (let locked = \<lparr>trace = [Acquire], last_exception = None\<rparr>;
          (sig, st) = for_attempts osascript script [0..<MAX_RETRIES] locked;
          released = trace st @ [Release]
      in case sig of
           Return out \<Rightarrow> (Inr out, released)
         | Raise e \<Rightarrow> (Inl e, released)
         | Normal \<Rightarrow> (Inl (Exception (fallback_text (last_exception st))), released))"

definition invocations :: "event list \<Rightarrow> nat list" where
  \<comment> \<open>the attempts that invoked the interpreter, in order\<close>
  "invocations t = concat (map (\<lambda>e. case e of Invoke n \<Rightarrow> [n] | _ \<Rightarrow> []) t)"

subsection \<open>Outcomes of an attempt, and interpreters used as examples\<close>

definition timed_out :: "outcome \<Rightarrow> bool" where
  "timed_out r = (case r of Raises (TimeoutExpired m) \<Rightarrow> True | _ \<Rightarrow> False)"

definition non_timeout_failure :: "outcome \<Rightarrow> bool" where
  "non_timeout_failure r =
     (case r of
        Completed returncode stdout stderr \<Rightarrow> returncode \<noteq> 0
      | Raises (TimeoutExpired m) \<Rightarrow> False
      | Raises e \<Rightarrow> True)"

definition always_timeout :: interpreter where
  "always_timeout script attempt = Raises (TimeoutExpired (lit ''timed out after 120 seconds''))"

definition succeeds_at_once :: interpreter where
  "succeeds_at_once script attempt = Completed 0 (lit ''  3 messages'' @ [10]) []"

definition timeout_then_error :: interpreter where
  "timeout_then_error script attempt =
     (if attempt = 0 then Raises (TimeoutExpired (lit ''timed out after 120 seconds''))
      else Completed 1 [] (lit ''execution error: Mail got an error'' @ [10]))"

text \<open>The failures that the handlers inside the loop raise.\<close>

definition classified :: "pyexc \<Rightarrow> bool" where
  "classified e \<longleftrightarrow>
     e = Exception timeout_text \<or> e = Exception not_found_text \<or>
     (\<exists>returncode stderr. e = Exception (script_error_text returncode stderr)) \<or>
     (\<exists>m. e = Exception m \<and> contains (lit ''AppleScript error'') m) \<or>
     (\<exists>m. e = Exception (lit ''AppleScript execution failed: '' @ m))"

section \<open>Properties of the execution engine\<close>

lemma attempts_range: "[0..<MAX_RETRIES] = [0, 1, 2]"
  by (simp add: MAX_RETRIES_def upt_rec)

lemma startswith_append: "startswith (p @ s) p"
  by (simp add: startswith_def)

lemma startswith_contains: "startswith s p \<Longrightarrow> contains p s"
  by (cases s) (auto simp: startswith_def)

lemma contains_script_error: "contains (lit ''AppleScript error'') (script_error_text returncode stderr)"
proof -
  have "script_error_text returncode stderr =
        lit ''AppleScript error'' @ lit '' (code '' @ str_int returncode @ lit ''): '' @
        (if stderr \<noteq> [] then strip stderr else lit ''Unknown AppleScript error'')"
    by (simp add: script_error_text_def lit_def)
  then show ?thesis
    by (simp only: startswith_contains startswith_append)
qed

lemma attempt_body_success:
  "osascript script attempt = Completed 0 stdout stderr \<Longrightarrow>
   attempt_body osascript script attempt st =
     (Return (strip stdout), st\<lparr>trace := trace st @ [Invoke attempt]\<rparr>)"
  by (simp add: attempt_body_def try_body_def)

lemma attempt_body_script_error:
  "osascript script attempt = Completed returncode stdout stderr \<Longrightarrow> returncode \<noteq> 0 \<Longrightarrow>
   attempt_body osascript script attempt st =
     (Raise (Exception (script_error_text returncode stderr)),
      st\<lparr>trace := trace st @ [Invoke attempt]\<rparr>)"
  by (simp add: attempt_body_def try_body_def contains_script_error)

lemma attempt_body_not_found:
  "osascript script attempt = Raises FileNotFoundError \<Longrightarrow>
   attempt_body osascript script attempt st =
     (Raise (Exception not_found_text), st\<lparr>trace := trace st @ [Invoke attempt]\<rparr>)"
  by (simp add: attempt_body_def try_body_def)

lemma attempt_body_other:
  "osascript script attempt = Raises (Exception m) \<Longrightarrow>
   attempt_body osascript script attempt st =
     (Raise (Exception (if contains (lit ''AppleScript error'') m then m
                        else lit ''AppleScript execution failed: '' @ m)),
      st\<lparr>trace := trace st @ [Invoke attempt]\<rparr>)"
  by (simp add: attempt_body_def try_body_def)

lemma attempt_body_timeout:
  "osascript script attempt = Raises (TimeoutExpired m) \<Longrightarrow>
   attempt_body osascript script attempt st =
     (if attempt < 2
      then (Normal, \<lparr>trace = trace st @ [Invoke attempt, Sleep (2 * 2 ^ attempt)],
                     last_exception = Some m\<rparr>)
      else (Raise (Exception timeout_text),
            \<lparr>trace = trace st @ [Invoke attempt], last_exception = Some m\<rparr>))"
  by (simp add: attempt_body_def try_body_def MAX_RETRIES_def INITIAL_BACKOFF_SECONDS_def)

lemma timeout_text_eq:
  "timeout_text = lit ''AppleScript execution timed out after 3 attempts. Apple Mail may be unresponsive.''"
  by (simp add: timeout_text_def str_nat_def MAX_RETRIES_def digits.simps lit_def)

lemma timed_outE: "timed_out r \<Longrightarrow> \<exists>m. r = Raises (TimeoutExpired m)"
  by (auto simp: timed_out_def split: outcome.splits pyexc.splits)

lemma attempt_body_failure:
  assumes "non_timeout_failure (osascript script attempt)"
  shows "\<exists>e. attempt_body osascript script attempt st =
           (Raise e, st\<lparr>trace := trace st @ [Invoke attempt]\<rparr>)"
proof (cases "osascript script attempt")
  case (Completed returncode stdout stderr)
  with assms have "returncode \<noteq> 0" by (simp add: non_timeout_failure_def)
  with Completed show ?thesis by (simp add: attempt_body_script_error)
next
  case (Raises e)
  with assms show ?thesis
    by (cases e) (simp_all add: non_timeout_failure_def attempt_body_not_found attempt_body_other)
qed

lemma attempt_body_Normal:
  "fst (attempt_body osascript script attempt st) = Normal \<longleftrightarrow>
   timed_out (osascript script attempt) \<and> attempt < 2"
  by (auto simp: attempt_body_def try_body_def timed_out_def MAX_RETRIES_def Let_def
           split: outcome.splits pyexc.splits)

lemma attempt_body_trace:
  "fst (attempt_body osascript script attempt st) \<noteq> Normal \<Longrightarrow>
   trace (snd (attempt_body osascript script attempt st)) = trace st @ [Invoke attempt]"
  by (auto simp: attempt_body_def try_body_def MAX_RETRIES_def Let_def
           split: outcome.splits pyexc.splits if_splits)

lemma attempt_body_retry:
  "fst (attempt_body osascript script attempt st) = Normal \<Longrightarrow>
   trace (snd (attempt_body osascript script attempt st)) =
     trace st @ [Invoke attempt, Sleep (2 * 2 ^ attempt)]"
  by (auto simp: attempt_body_def try_body_def MAX_RETRIES_def INITIAL_BACKOFF_SECONDS_def Let_def
           split: outcome.splits pyexc.splits if_splits)


lemma for_attempts_Cons:
  "for_attempts osascript script (attempt # rest) st =
     (if fst (attempt_body osascript script attempt st) = Normal
      then for_attempts osascript script rest (snd (attempt_body osascript script attempt st))
      else attempt_body osascript script attempt st)"
  by (simp split: prod.splits signal.splits)

declare for_attempts.simps(2) [simp del]

lemma run_applescript_trace:
  "snd (run_applescript osascript script) =
     trace (snd (for_attempts osascript script [0, 1, 2] \<lparr>trace = [Acquire], last_exception = None\<rparr>))
     @ [Release]"
  by (simp add: run_applescript_def attempts_range Let_def split: prod.splits signal.splits)

lemma for_attempts_not_Normal:
  "fst (for_attempts osascript script [0, 1, 2] st) \<noteq> Normal"
  by (simp add: for_attempts_Cons attempt_body_Normal)

lemma run_trace_cases:
  "snd (run_applescript osascript script) =
     (if \<not> timed_out (osascript script 0) then [Acquire, Invoke 0, Release]
      else if \<not> timed_out (osascript script 1) then [Acquire, Invoke 0, Sleep 2, Invoke 1, Release]
      else [Acquire, Invoke 0, Sleep 2, Invoke 1, Sleep 4, Invoke 2, Release])"
  by (simp add: run_applescript_trace for_attempts_Cons attempt_body_Normal attempt_body_trace
        attempt_body_retry)


lemma non_timeout_failure_not_timed_out: "non_timeout_failure r \<Longrightarrow> \<not> timed_out r"
  by (auto simp: non_timeout_failure_def timed_out_def split: outcome.splits pyexc.splits)

lemma run_applescript_alt:
  "run_applescript osascript script =
     (let r = for_attempts osascript script [0, 1, 2] \<lparr>trace = [Acquire], last_exception = None\<rparr>
      in (case fst r of
            Return out \<Rightarrow> Inr out
          | Raise e \<Rightarrow> Inl e
          | Normal \<Rightarrow> Inl (Exception (fallback_text (last_exception (snd r)))),
          trace (snd r) @ [Release]))"
  by (simp add: run_applescript_def attempts_range Let_def split: prod.splits signal.splits)

lemma run_applescript_fails:
  assumes "fst (for_attempts osascript script [0, 1, 2] \<lparr>trace = [Acquire], last_exception = None\<rparr>)
           = Raise e"
  shows "fst (run_applescript osascript script) = Inl e"
  using assms by (simp add: run_applescript_alt Let_def)

lemma attempt_body_signal:
  "(case fst (attempt_body osascript script attempt st) of
      Return out \<Rightarrow> \<exists>stdout stderr. osascript script attempt = Completed 0 stdout stderr \<and>
                      out = strip stdout
    | Raise e \<Rightarrow> classified e
    | Normal \<Rightarrow> True)"
  by (auto simp: attempt_body_def try_body_def Let_def classified_def
           split: outcome.splits pyexc.splits)

lemma for_attempts_signal:
  "(case fst (for_attempts osascript script [0, 1, 2] st) of
      Return out \<Rightarrow> \<exists>attempt stdout stderr. attempt < 3 \<and>
                      osascript script attempt = Completed 0 stdout stderr \<and> out = strip stdout
    | Raise e \<Rightarrow> classified e
    | Normal \<Rightarrow> False)"
proof -
  have one: "\<And>a st. a < 3 \<Longrightarrow> fst (attempt_body osascript script a st) \<noteq> Normal \<Longrightarrow>
    (case fst (attempt_body osascript script a st) of
      Return out \<Rightarrow> \<exists>attempt stdout stderr. attempt < 3 \<and>
                      osascript script attempt = Completed 0 stdout stderr \<and> out = strip stdout
    | Raise e \<Rightarrow> classified e
    | Normal \<Rightarrow> False)"
    using attempt_body_signal by (fastforce split: signal.splits)
  have last: "fst (attempt_body osascript script 2 st') \<noteq> Normal" for st'
    by (simp add: attempt_body_Normal)
  show ?thesis
    using one [of 0] one [of 1] one [of 2] last
    by (simp add: for_attempts_Cons)
qed

text \<open>
  C4: when the first invocation of the interpreter exits with status 0, \<open>run_applescript\<close>
  returns that invocation's standard output with leading and trailing whitespace removed,
  and the interpreter is invoked exactly once (between taking and releasing the lock).
\<close>

theorem first_attempt_success:
  assumes "osascript script 0 = Completed 0 stdout stderr"
  shows "run_applescript osascript script = (Inr (strip stdout), [Acquire, Invoke 0, Release])"
  using assms by (simp add: run_applescript_alt for_attempts_Cons attempt_body_success)


theorem first_attempt_success_witness:
  "run_applescript succeeds_at_once (lit ''tell application'') =
     (Inr (lit ''3 messages''), [Acquire, Invoke 0, Release])"
  using first_attempt_success [of succeeds_at_once "lit ''tell application''" "lit ''  3 messages'' @ [10]" "[]"]
  by (simp add: succeeds_at_once_def strip_def lstrip_def rstrip_def isspace_def lit_def)

text \<open>
  C2: only a timeout is retried. When the attempts before attempt \<open>k\<close> timed out and
  attempt \<open>k\<close> ends with a non-zero exit status, a missing interpreter or any other
  exception, the call fails and attempt \<open>k\<close> is the last invocation (for \<open>k = 0\<close>: exactly
  one invocation). And in every call, an attempt is followed by another one only if it
  timed out.
\<close>

theorem only_timeouts_retried:
  "(k < MAX_RETRIES \<and> (\<forall>i<k. timed_out (osascript script i)) \<and>
    non_timeout_failure (osascript script k) \<longrightarrow>
      isl (fst (run_applescript osascript script)) \<and>
      invocations (snd (run_applescript osascript script)) = [0..<Suc k]) \<and>
   (\<forall>i. Suc i \<in> set (invocations (snd (run_applescript osascript script))) \<longrightarrow>
      timed_out (osascript script i))"
proof (intro conjI impI allI)
  assume h: "k < MAX_RETRIES \<and> (\<forall>i<k. timed_out (osascript script i)) \<and>
             non_timeout_failure (osascript script k)"
  then have k: "k = 0 \<or> k = 1 \<or> k = 2"
    by (auto simp: MAX_RETRIES_def)
  from h have nt: "\<not> timed_out (osascript script k)"
    by (simp add: non_timeout_failure_not_timed_out)
  from h have fail: "\<And>st. \<exists>e. attempt_body osascript script k st =
                       (Raise e, st\<lparr>trace := trace st @ [Invoke k]\<rparr>)"
    by (simp add: attempt_body_failure)
  from h have before: "\<And>i. i < k \<Longrightarrow> timed_out (osascript script i)"
    by simp
  have "\<exists>e. fst (for_attempts osascript script [0, 1, 2]
                  \<lparr>trace = [Acquire], last_exception = None\<rparr>) = Raise e"
    using k
  proof (elim disjE)
    assume "k = 0"
    with nt fail [of "\<lparr>trace = [Acquire], last_exception = None\<rparr>"] show ?thesis
      by (auto simp: for_attempts_Cons)
  next
    assume k1: "k = 1"
    with before have "timed_out (osascript script 0)" by simp
    with k1 nt fail [of "snd (attempt_body osascript script 0 \<lparr>trace = [Acquire], last_exception = None\<rparr>)"]
    show ?thesis
      by (auto simp: for_attempts_Cons attempt_body_Normal)
  next
    assume k2: "k = 2"
    with before have "timed_out (osascript script 0)" "timed_out (osascript script 1)" by simp_all
    with k2 nt fail [of "snd (attempt_body osascript script 1
        (snd (attempt_body osascript script 0 \<lparr>trace = [Acquire], last_exception = None\<rparr>)))"]
    show ?thesis
      by (auto simp: for_attempts_Cons attempt_body_Normal)
  qed
  then show "isl (fst (run_applescript osascript script))"
    by (auto simp: run_applescript_fails)
  show "invocations (snd (run_applescript osascript script)) = [0..<Suc k]"
    using k nt before
    by (auto simp: run_trace_cases invocations_def upt_rec)
next
  fix i
  assume "Suc i \<in> set (invocations (snd (run_applescript osascript script)))"
  then show "timed_out (osascript script i)"
    by (auto simp: run_trace_cases invocations_def split: if_splits)
qed

theorem only_timeouts_retried_witness:
  "isl (fst (run_applescript timeout_then_error [])) \<and>
   invocations (snd (run_applescript timeout_then_error [])) = [0, 1]"
  using only_timeouts_retried [of 1 timeout_then_error "[]"]
  by (simp add: timeout_then_error_def timed_out_def non_timeout_failure_def MAX_RETRIES_def)

text \<open>
  C3: a call invokes the interpreter at most 3 times; after a first attempt that timed out
  it sleeps 2 seconds before the second, after a second one that timed out 4 seconds before
  the third; and when the third times out too it fails with the message that Apple Mail
  may be unresponsive, whatever the text of the timeout exceptions was.
\<close>

theorem timeout_backoff:
  "length (invocations (snd (run_applescript osascript script))) \<le> 3 \<and>
   (timed_out (osascript script 0) \<longrightarrow>
      take 4 (snd (run_applescript osascript script)) = [Acquire, Invoke 0, Sleep 2, Invoke 1]) \<and>
   (timed_out (osascript script 0) \<and> timed_out (osascript script 1) \<longrightarrow>
      take 6 (snd (run_applescript osascript script)) =
        [Acquire, Invoke 0, Sleep 2, Invoke 1, Sleep 4, Invoke 2]) \<and>
   (timed_out (osascript script 0) \<and> timed_out (osascript script 1) \<and>
    timed_out (osascript script 2) \<longrightarrow>
      run_applescript osascript script =
        (Inl (Exception (lit ''AppleScript execution timed out after 3 attempts. Apple Mail may be unresponsive.'')),
         [Acquire, Invoke 0, Sleep 2, Invoke 1, Sleep 4, Invoke 2, Release]))"
proof (intro conjI impI)
  show "length (invocations (snd (run_applescript osascript script))) \<le> 3"
    by (simp add: run_trace_cases invocations_def)
  show "take 4 (snd (run_applescript osascript script)) = [Acquire, Invoke 0, Sleep 2, Invoke 1]"
    if "timed_out (osascript script 0)"
    using that by (simp add: run_trace_cases)
  show "take 6 (snd (run_applescript osascript script)) =
          [Acquire, Invoke 0, Sleep 2, Invoke 1, Sleep 4, Invoke 2]"
    if "timed_out (osascript script 0) \<and> timed_out (osascript script 1)"
    using that by (simp add: run_trace_cases)
  show "run_applescript osascript script =
          (Inl (Exception (lit ''AppleScript execution timed out after 3 attempts. Apple Mail may be unresponsive.'')),
           [Acquire, Invoke 0, Sleep 2, Invoke 1, Sleep 4, Invoke 2, Release])"
    if h: "timed_out (osascript script 0) \<and> timed_out (osascript script 1) \<and>
           timed_out (osascript script 2)"
  proof -
    from h obtain m0 m1 m2 where
      "osascript script 0 = Raises (TimeoutExpired m0)"
      "osascript script 1 = Raises (TimeoutExpired m1)"
      "osascript script 2 = Raises (TimeoutExpired m2)"
      by (metis timed_outE)
    then show ?thesis
      by (simp add: run_applescript_def attempts_range for_attempts_Cons attempt_body_timeout
            timeout_text_eq)
  qed
qed


theorem timeout_backoff_witness:
  "run_applescript always_timeout [] =
     (Inl (Exception (lit ''AppleScript execution timed out after 3 attempts. Apple Mail may be unresponsive.'')),
      [Acquire, Invoke 0, Sleep 2, Invoke 1, Sleep 4, Invoke 2, Release])"
  using timeout_backoff [of always_timeout "[]"]
  by (simp add: always_timeout_def timed_out_def)

text \<open>
  C10, as the code has it: the statement after the loop (the raise that reports a failure
  "after MAX_RETRIES attempts") is never reached. An iteration ends the call by returning
  or raising, or, exactly when its attempt timed out and it is not the last one, sleeps and
  goes on to the next iteration; the last iteration always returns or raises, so the loop
  never completes normally, and every call ends with the trimmed output of an attempt that
  exited with status 0 or with one of the failures raised inside the loop.
\<close>

theorem fallback_unreachable:
  "fst (attempt_body osascript script (MAX_RETRIES - 1) st) \<noteq> Normal \<and>
   fst (for_attempts osascript script [0..<MAX_RETRIES] st) \<noteq> Normal \<and>
   (fst (attempt_body osascript script attempt st) = Normal \<longleftrightarrow>
      timed_out (osascript script attempt) \<and> attempt < MAX_RETRIES - 1) \<and>
   (case fst (run_applescript osascript script) of
      Inr out \<Rightarrow> \<exists>attempt stdout stderr. attempt < MAX_RETRIES \<and>
                   osascript script attempt = Completed 0 stdout stderr \<and> out = strip stdout
    | Inl e \<Rightarrow> classified e)"
proof (intro conjI)
  show "fst (attempt_body osascript script (MAX_RETRIES - 1) st) \<noteq> Normal"
    by (simp add: attempt_body_Normal MAX_RETRIES_def)
  show "fst (for_attempts osascript script [0..<MAX_RETRIES] st) \<noteq> Normal"
    unfolding attempts_range by (rule for_attempts_not_Normal)
  show "fst (attempt_body osascript script attempt st) = Normal \<longleftrightarrow>
          timed_out (osascript script attempt) \<and> attempt < MAX_RETRIES - 1"
    by (simp add: attempt_body_Normal MAX_RETRIES_def)
  show "case fst (run_applescript osascript script) of
      Inr out \<Rightarrow> \<exists>attempt stdout stderr. attempt < MAX_RETRIES \<and>
                   osascript script attempt = Completed 0 stdout stderr \<and> out = strip stdout
    | Inl e \<Rightarrow> classified e"
    using for_attempts_signal [of osascript script "\<lparr>trace = [Acquire], last_exception = None\<rparr>"]
    by (simp add: run_applescript_alt Let_def MAX_RETRIES_def split: signal.splits)
qed

theorem fallback_unreachable_witness:
  "fst (for_attempts timeout_then_error [] [0..<MAX_RETRIES] \<lparr>trace = [Acquire], last_exception = None\<rparr>)
     \<noteq> Normal \<and>
   classified (Exception (script_error_text 1 (lit ''execution error: Mail got an error'' @ [10])))"
  using fallback_unreachable [of timeout_then_error "[]" "\<lparr>trace = [Acquire], last_exception = None\<rparr>" 0]
  by (simp add: classified_def) blast

text \<open>
  C10 as stated says that each iteration either returns or raises. The first iteration of
  a call whose first attempt times out does neither: it ends normally, and the loop goes on.
\<close>

theorem retry_iteration_continues:
  "fst (attempt_body always_timeout [] 0 \<lparr>trace = [Acquire], last_exception = None\<rparr>) = Normal"
  by (simp add: attempt_body_Normal always_timeout_def timed_out_def)


section \<open>Properties of the result parser\<close>

subsection \<open>Stripping\<close>

lemma dropWhile_id: "xs \<noteq> [] \<Longrightarrow> \<not> P (hd xs) \<Longrightarrow> dropWhile P xs = xs"
  by (cases xs) simp_all

lemma dropWhile_same_length: "length (dropWhile P xs) = length xs \<Longrightarrow> dropWhile P xs = xs"
  by (metis append_eq_append_conv append_self_conv2 takeWhile_dropWhile_id)

lemma rstrip_keeps:
  assumes "s \<noteq> []" "\<not> isspace (last s)"
  shows "rstrip (p @ s) = p @ s"
proof -
  have "dropWhile isspace (rev (p @ s)) = rev (p @ s)"
    by (rule dropWhile_id) (use assms in \<open>simp_all add: hd_append hd_rev\<close>)
  then show ?thesis by (simp add: rstrip_def)
qed

lemma strip_prefix:
  assumes "p \<noteq> []" "\<not> isspace (hd p)" "\<not> isspace (last p)"
  shows "strip (p @ s) = p @ rstrip s"
proof -
  have "dropWhile isspace (p @ s) = p @ s"
    using assms by (simp add: dropWhile_id)
  moreover have "dropWhile isspace (rev s @ rev p) = dropWhile isspace (rev s) @ rev p"
    using assms by (simp add: dropWhile_append dropWhile_id hd_rev)
  ultimately show ?thesis
    by (simp add: strip_def lstrip_def rstrip_def)
qed

lemma strip_leading: "\<forall>c\<in>set ws. isspace c \<Longrightarrow> strip (ws @ s) = strip s"
  by (simp add: strip_def lstrip_def)

lemma strip_Nil: "strip [] = []"
  by (simp add: strip_def lstrip_def rstrip_def)

lemma strip_fixed_ends:
  assumes "strip s = s" "s \<noteq> []"
  shows "\<not> isspace (hd s) \<and> \<not> isspace (last s)"
proof -
  let ?d = "dropWhile isspace s"
  have "length (strip s) \<le> length ?d"
    using length_dropWhile_le [of isspace "rev ?d"] by (simp add: strip_def lstrip_def rstrip_def)
  with assms have "length ?d = length s"
    using length_dropWhile_le [of isspace s] by simp
  then have d: "?d = s" by (rule dropWhile_same_length)
  with assms have "dropWhile isspace (rev s) = rev s"
    by (simp add: strip_def lstrip_def rstrip_def) (metis rev_swap)
  with assms d show ?thesis
    by (metis hd_dropWhile hd_rev rev_is_Nil_conv)
qed

subsection \<open>The loop body, by kind of line\<close>

lemma startswith_Cons: "startswith s (c # p) \<Longrightarrow> s \<noteq> [] \<and> hd s = c"
  by (cases s) (simp_all add: startswith_def)

lemma startswith_single: "startswith s [c] \<longleftrightarrow> s \<noteq> [] \<and> hd s = c"
  by (cases s) (simp_all add: startswith_def)

lemma not_startswith: "hd s \<noteq> c \<Longrightarrow> \<not> startswith s (c # p)"
  by (cases s) (simp_all add: startswith_def)

lemmas glyphs = GLYPH_EQ_def GLYPH_BAR_def GLYPH_MAIL_def GLYPH_WARN_def GLYPH_UNREAD_def
  GLYPH_READ_def

lemma hd_not_special:
  assumes "s \<noteq> []" "hd s \<in> {70, 68, 80, 84}"
  shows "\<not> is_skipped s" "\<not> is_record_start s"
  using assms by (auto simp: is_skipped_def is_record_start_def startswith_single glyphs)

lemma loop_body_terminator:
  assumes "is_terminator raw"
  shows "loop_body st raw = ((append_if_truthy (fst st) (snd st), snd st), True)"
proof -
  from assms have t: "startswith (strip raw) (lit ''TOTAL EMAILS'')"
    by (simp add: is_terminator_def)
  then have h: "strip raw \<noteq> [] \<and> hd (strip raw) = 84"
    using startswith_Cons [of "strip raw" 84] by (simp add: lit_def)
  then have "\<not> is_skipped (strip raw)" "\<not> is_record_start (strip raw)"
    using hd_not_special [of "strip raw"] by simp_all
  moreover from h have "\<not> startswith (strip raw) (lit ''From:'')"
    "\<not> startswith (strip raw) (lit ''Date:'')" "\<not> startswith (strip raw) (lit ''Preview:'')"
    by (simp_all add: lit_def not_startswith)
  ultimately show ?thesis
    using t by (simp add: loop_body_def Let_def)
qed

lemma loop_body_no_break: "\<not> is_terminator raw \<Longrightarrow> snd (loop_body st raw) = False"
  by (simp add: loop_body_def is_terminator_def Let_def)

lemma loop_body_unrecognized: "unrecognized raw \<Longrightarrow> loop_body st raw = (st, False)"
  by (simp add: loop_body_def unrecognized_def Let_def)

lemma loop_body_inert: "inert raw \<Longrightarrow> loop_body st raw = (st, False)"
  by (auto simp: inert_def loop_body_unrecognized) (simp add: loop_body_def)

lemma loop_body_field:
  assumes "is_field_line raw"
  shows "loop_body st raw = ((fst st, set_field (strip raw) (snd st)), False)"
proof -
  from assms have "strip raw \<noteq> [] \<and> hd (strip raw) \<in> {70, 68, 80}"
    using startswith_Cons [of "strip raw" 70] startswith_Cons [of "strip raw" 68]
      startswith_Cons [of "strip raw" 80]
    by (auto simp: is_field_line_def lit_def Let_def)
  then have "\<not> is_skipped (strip raw)" "\<not> is_record_start (strip raw)"
    using hd_not_special [of "strip raw"] by auto
  then show ?thesis
    using assms by (auto simp: loop_body_def set_field_def is_field_line_def Let_def)
qed

lemma for_lines_Cons:
  "for_lines st (raw # lines) =
     (if snd (loop_body st raw) then fst (loop_body st raw)
      else for_lines (fst (loop_body st raw)) lines)"
  by (simp split: prod.splits bool.splits)

declare for_lines.simps(2) [simp del]

lemma for_lines_append:
  "\<forall>l\<in>set pre. \<not> is_terminator l \<Longrightarrow> for_lines st (pre @ rest) = for_lines (for_lines st pre) rest"
  by (induction pre arbitrary: st) (simp_all add: for_lines_Cons loop_body_no_break)

lemma for_lines_terminator:
  "is_terminator raw \<Longrightarrow>
   for_lines st (raw # post) = (append_if_truthy (fst st) (snd st), snd st)"
  by (simp add: for_lines_Cons loop_body_terminator)

lemma final_append_after_break:
  "final_append (append_if_truthy emails current_email, current_email) =
     append_if_truthy emails current_email"
  by (simp add: final_append_def append_if_truthy_def)

lemma for_lines_drop_unrecognized:
  "unrecognized raw \<Longrightarrow> for_lines st (pre @ raw # post) = for_lines st (pre @ post)"
  by (induction pre arbitrary: st) (simp_all add: for_lines_Cons loop_body_unrecognized)


lemmas evaluate = lit_def strip_def lstrip_def rstrip_def isspace_def startswith_def loop_body_def is_skipped_def
  is_record_start_def append_if_truthy_def truthy_def empty_dict_def final_append_def
  parse_lines_def parse_email_list_def glyphs Let_def for_lines_Cons

lemma loop_body_held: "records_held (fst (loop_body st raw)) \<le> Suc (records_held st)"
  by (simp add: loop_body_def records_held_def append_if_truthy_def Let_def)


lemma for_lines_held: "records_held (for_lines st lines) \<le> records_held st + length lines"
proof (induction lines arbitrary: st)
  case Nil
  show ?case by simp
next
  case (Cons raw lines)
  have "records_held (for_lines (fst (loop_body st raw)) lines)
        \<le> records_held (fst (loop_body st raw)) + length lines"
    by (rule Cons.IH)
  with loop_body_held [of st raw] show ?case
    by (simp add: for_lines_Cons)
qed

lemma final_append_length: "length (final_append st) \<le> records_held st"
  by (simp add: final_append_def records_held_def Let_def)

lemma parse_lines_length: "length (parse_lines lines) \<le> length lines"
  using final_append_length [of "for_lines ([], empty_dict) lines"]
    for_lines_held [of "([], empty_dict)" lines]
  by (simp add: parse_lines_def records_held_def truthy_def)

lemma for_lines_inert:
  "\<forall>l\<in>set pre. inert l \<Longrightarrow> for_lines st (pre @ rest) = for_lines st rest"
  by (induction pre arbitrary: st) (simp_all add: for_lines_Cons loop_body_inert)

lemma truthy_update:
  "truthy (e\<lparr>sender := Some v\<rparr>)" "truthy (e\<lparr>date := Some v\<rparr>)" "truthy (e\<lparr>preview := Some v\<rparr>)"
  by (cases e; simp add: truthy_def empty_dict_def)+

lemma truthy_set_field: "truthy (set_field line e)"
  by (simp add: set_field_def truthy_update)

lemma subject_set_field: "subject (set_field line e) = subject e"
  by (simp add: set_field_def)

lemma loop_body_headless: "headless st \<Longrightarrow> headless (fst (loop_body st raw))"
  by (cases st; cases "fst st")
     (auto simp: loop_body_def headless_def append_if_truthy_def Let_def truthy_update)

lemma for_lines_headless: "headless st \<Longrightarrow> headless (for_lines st lines)"
  by (induction lines arbitrary: st) (simp_all add: for_lines_Cons loop_body_headless)

lemma final_append_headless:
  "headless st \<Longrightarrow> final_append st \<noteq> [] \<and> subject (hd (final_append st)) = None"
  by (cases st; cases "fst st") (auto simp: headless_def final_append_def Let_def)


lemma example_lines:
  "split_nl example_output =
     [GLYPH_UNREAD # lit '' Hello'', lit ''   From: a@b.com'', lit ''   Date: 2024-01-01'',
      lit ''TOTAL EMAILS: 1'', []]"
  by (simp add: example_output_def lit_def glyphs)

text \<open>
  C5: when a line is the first whose trimmed text begins with \<open>TOTAL EMAILS\<close>, scanning
  stops there: the result is the records emitted before it followed by the current record,
  appended once if there is one, and the lines after the terminator contribute nothing
  (the result is that of the lines up to the terminator). The example of the
  specification parses to the single record with subject \<open>Hello\<close>, read flag false,
  sender \<open>a@b.com\<close> and date \<open>2024-01-01\<close>.
\<close>

theorem terminator_stops_scanning:
  "(split_nl output = pre @ t # post \<and> (\<forall>l\<in>set pre. \<not> is_terminator l) \<and> is_terminator t \<longrightarrow>
      parse_email_list output =
        append_if_truthy (fst (for_lines ([], empty_dict) pre)) (snd (for_lines ([], empty_dict) pre)) \<and>
      parse_email_list output = parse_lines (pre @ [t])) \<and>
   parse_email_list example_output = [hello_record]"
proof (intro conjI impI)
  assume h: "split_nl output = pre @ t # post \<and> (\<forall>l\<in>set pre. \<not> is_terminator l) \<and>
             is_terminator t"
  then have "for_lines ([], empty_dict) (pre @ t # rest) =
        (append_if_truthy (fst (for_lines ([], empty_dict) pre)) (snd (for_lines ([], empty_dict) pre)),
         snd (for_lines ([], empty_dict) pre))" for rest
    by (simp add: for_lines_append for_lines_terminator)
  with h show "parse_email_list output =
        append_if_truthy (fst (for_lines ([], empty_dict) pre)) (snd (for_lines ([], empty_dict) pre))"
    and "parse_email_list output = parse_lines (pre @ [t])"
    by (simp_all add: parse_email_list_def parse_lines_def final_append_after_break)
next
  show "parse_email_list example_output = [hello_record]"
    by (simp add: parse_email_list_def example_lines hello_record_def)
       (simp add: evaluate)
qed

theorem terminator_stops_scanning_witness:
  "parse_email_list (example_output @ GLYPH_UNREAD # lit '' Late'') = [hello_record]"
  using terminator_stops_scanning [of "example_output @ GLYPH_UNREAD # lit '' Late''"
      "[GLYPH_UNREAD # lit '' Hello'', lit ''   From: a@b.com'', lit ''   Date: 2024-01-01'']"
      "lit ''TOTAL EMAILS: 1''" "[GLYPH_UNREAD # lit '' Late'']"]
  by (simp add: example_output_def is_terminator_def hello_record_def evaluate)

text \<open>
  C8: \<open>parse_email_list\<close> is a total function to finite lists (no operation of the source
  can raise: slicing, \<open>strip\<close>, \<open>startswith\<close>, storing a key, \<open>in\<close>), with at most one
  record per line of input; a non-blank line that matches no recognised prefix leaves the
  emitted records and the current record unchanged, and the result is the same as without
  that line.
\<close>

theorem unrecognized_lines_ignored:
  "(unrecognized raw \<longrightarrow> loop_body st raw = (st, False)) \<and>
   (split_nl output = pre @ raw # post \<and> unrecognized raw \<longrightarrow>
      parse_email_list output = parse_lines (pre @ post)) \<and>
   length (parse_email_list output) \<le> length (split_nl output)"
  by (simp add: loop_body_unrecognized parse_email_list_def parse_lines_def
        for_lines_drop_unrecognized parse_lines_length [unfolded parse_lines_def])

theorem unrecognized_lines_ignored_witness:
  "unrecognized (lit ''-- noise --'') \<and>
   parse_email_list noisy_output = parse_lines [GLYPH_UNREAD # lit '' A'', lit ''From: x''] \<and>
   parse_email_list noisy_output =
     [\<lparr>subject = Some (lit ''A''), is_read = Some False, sender = Some (lit ''x''),
       date = None, preview = None\<rparr>]"
  using unrecognized_lines_ignored [of "lit ''-- noise --''" "([], empty_dict)" noisy_output
      "[GLYPH_UNREAD # lit '' A'']" "[lit ''From: x'']"]
  by (simp add: noisy_output_def unrecognized_def evaluate)

text \<open>
  C6: two record-start lines and nothing else should give two records. When both lines
  are equal, the final \<open>current_email not in emails\<close> test finds the second record equal
  to the first, already emitted, and drops it: the result has one record.
\<close>

theorem equal_last_record_dropped:
  "parse_email_list two_equal_starts =
     [\<lparr>subject = Some (lit ''A''), is_read = Some False, sender = None, date = None,
       preview = None\<rparr>]"
  by (simp add: two_equal_starts_def evaluate)

text \<open>
  C7 as stated: a field line before any record-start line is ignored. It is not: the
  loop stores the field in the empty dictionary, which is then emitted as a record
  without subject.
\<close>

theorem field_before_record_not_ignored:
  "parse_email_list field_first =
     [\<lparr>subject = None, is_read = None, sender = Some (lit ''x''), date = None, preview = None\<rparr>,
      \<lparr>subject = Some (lit ''A''), is_read = Some False, sender = None, date = None,
       preview = None\<rparr>] \<and>
   parse_email_list (GLYPH_UNREAD # lit '' A'') =
     [\<lparr>subject = Some (lit ''A''), is_read = Some False, sender = None, date = None,
       preview = None\<rparr>]"
  by (simp add: field_first_def evaluate)

text \<open>
  C7, as the code has it: a field line (\<open>From:\<close>, \<open>Date:\<close>, \<open>Preview:\<close>) preceded only by
  skipped and unrecognised lines stores its trimmed remainder in the still empty current
  dictionary; scanning goes on from that dictionary, and the result begins with a record
  that has no subject.
\<close>

theorem field_before_record_kept:
  assumes "split_nl output = pre @ raw # post" "\<forall>l\<in>set pre. inert l" "is_field_line raw"
  shows "parse_email_list output =
           final_append (for_lines ([], set_field (strip raw) empty_dict) post) \<and>
         parse_email_list output \<noteq> [] \<and> subject (hd (parse_email_list output)) = None"
proof -
  have eq: "parse_email_list output =
              final_append (for_lines ([], set_field (strip raw) empty_dict) post)"
    using assms
    by (simp add: parse_email_list_def parse_lines_def for_lines_inert for_lines_Cons
          loop_body_field)
  have "headless ([], set_field (strip raw) empty_dict)"
    by (simp add: headless_def truthy_set_field subject_set_field empty_dict_def)
  then have "headless (for_lines ([], set_field (strip raw) empty_dict) post)"
    by (rule for_lines_headless)
  with eq show ?thesis
    by (simp add: final_append_headless)
qed

theorem field_before_record_kept_witness:
  "parse_email_list (lit ''====='' @ [10] @ lit ''Date: today'' @ [10] @ GLYPH_READ # lit '' B'') =
     [\<lparr>subject = None, is_read = None, sender = None, date = Some (lit ''today''),
       preview = None\<rparr>,
      \<lparr>subject = Some (lit ''B''), is_read = Some True, sender = None, date = None,
       preview = None\<rparr>]"
  using field_before_record_kept [of
      "lit ''====='' @ [10] @ lit ''Date: today'' @ [10] @ GLYPH_READ # lit '' B''"
      "[lit ''=====''] " "lit ''Date: today''" "[GLYPH_READ # lit '' B'']"]
  by (simp add: is_field_line_def set_field_def inert_def evaluate)


subsection \<open>Parsing the documented format\<close>

lemma split_nl_line: "10 \<notin> set l \<Longrightarrow> split_nl (l @ 10 # rest) = l # split_nl rest"
  by (induction l) auto

lemma split_nl_lines:
  "\<forall>l\<in>set ls. 10 \<notin> set l \<Longrightarrow> split_nl (concat (map (\<lambda>l. l @ [10]) ls)) = ls @ [[]]"
  by (induction ls) (simp_all add: split_nl_line)

lemma digits_set: "set (digits n) \<subseteq> {48..57}"
proof (induction n rule: digits.induct)
  case (1 n)
  show ?case
  proof (cases "n < 10")
    case True
    then show ?thesis by (subst digits.simps) auto
  next
    case False
    with 1 have "set (digits (n div 10)) \<subseteq> {48..57}" by simp
    moreover have "n mod 10 < 10" by simp
    then have "48 + n mod 10 \<in> {48..57}" by simp
    ultimately show ?thesis using False by (subst digits.simps) auto
  qed
qed

lemma digits_no_newline: "10 \<notin> set (digits n)"
  using digits_set [of n] by auto


lemma clean_ends: "clean s \<Longrightarrow> s \<noteq> [] \<Longrightarrow> \<not> isspace (hd s) \<and> \<not> isspace (last s)"
  by (simp add: clean_def strip_fixed_ends)

lemma isspace_32: "isspace 32"
  by (simp add: isspace_def)

lemma rstrip_space_clean:
  assumes "clean s"
  shows "rstrip (32 # s) = (if s = [] then [] else 32 # s)"
proof (cases "s = []")
  case True
  then show ?thesis by (simp add: isspace_32 rstrip_def)
next
  case False
  with assms rstrip_keeps [of s "[32]"] show ?thesis
    by (simp add: clean_ends)
qed

lemma strip_space_clean: "clean s \<Longrightarrow> strip (32 # s) = s"
  using strip_leading [of "[32]" s] by (simp add: isspace_32 clean_def)

lemma strip_tail_clean: "clean s \<Longrightarrow> strip (if s = [] then [] else 32 # s) = s"
  by (simp add: strip_space_clean strip_Nil)

lemma strip_prefixed_clean:
  assumes "clean s" "p \<noteq> []" "\<not> isspace (hd p)" "\<not> isspace (last p)"
  shows "strip (p @ 32 # s) = p @ (if s = [] then [] else 32 # s)"
  using assms by (simp add: strip_prefix rstrip_space_clean)

lemma strip_indented_clean:
  assumes "clean s" "p \<noteq> []" "\<not> isspace (hd p)" "\<not> isspace (last p)"
  shows "strip (lit ''   '' @ p @ 32 # s) = p @ (if s = [] then [] else 32 # s)"
proof -
  have "strip (lit ''   '' @ p @ 32 # s) = strip (p @ 32 # s)"
    by (rule strip_leading) (simp add: lit_def isspace_32)
  with assms show ?thesis
    by (simp add: strip_prefixed_clean)
qed

lemma loop_body_start_line:
  assumes "clean s" "m = GLYPH_READ \<or> m = GLYPH_UNREAD"
  shows "loop_body (emails, current_email) (m # 32 # s) =
           ((append_if_truthy emails current_email,
             \<lparr>subject = Some s, is_read = Some (m = GLYPH_READ), sender = None, date = None,
              preview = None\<rparr>), False)"
proof -
  from assms(2) have m: "\<not> isspace m"
    by (auto simp: isspace_def glyphs)
  with assms(1) have line: "strip (m # 32 # s) = m # (if s = [] then [] else 32 # s)"
    using strip_prefixed_clean [of s "[m]"] by simp
  from assms(1) have "strip (drop 2 (m # (if s = [] then [] else 32 # s))) = s"
    by (simp add: strip_Nil) (simp add: clean_def)
  with line assms(2) show ?thesis
    by (auto simp: loop_body_def is_skipped_def is_record_start_def startswith_single glyphs)
qed

lemma loop_body_field_line:
  assumes "clean s" "name = lit ''From:'' \<or> name = lit ''Date:'' \<or> name = lit ''Preview:''"
  shows "loop_body (emails, current_email) (lit ''   '' @ name @ 32 # s) =
           ((emails, set_field (name @ (if s = [] then [] else 32 # s)) current_email), False)"
proof -
  let ?tail = "if s = [] then [] else 32 # s"
  let ?raw = "lit ''   '' @ name @ 32 # s"
  have line: "strip ?raw = name @ ?tail"
    using assms by (intro strip_indented_clean) (auto simp: lit_def isspace_def)
  have "startswith (strip ?raw) name"
    unfolding line by (rule startswith_append)
  with assms(2) have "is_field_line ?raw"
    unfolding is_field_line_def Let_def by blast
  then have "loop_body (emails, current_email) ?raw =
               ((fst (emails, current_email), set_field (strip ?raw) (snd (emails, current_email))),
                False)"
    by (rule loop_body_field)
  then show ?thesis
    unfolding line by simp
qed

lemma set_field_sender:
  "set_field (lit ''From:'' @ x) e = e\<lparr>sender := Some (strip x)\<rparr>"
  by (simp add: set_field_def lit_def startswith_def)

lemma set_field_date:
  "set_field (lit ''Date:'' @ x) e = e\<lparr>date := Some (strip x)\<rparr>"
  by (simp add: set_field_def lit_def startswith_def)

lemma set_field_preview:
  "set_field (lit ''Preview:'' @ x) e = e\<lparr>preview := Some (strip x)\<rparr>"
  by (simp add: set_field_def lit_def startswith_def)

lemma loop_body_sender_line:
  assumes "clean s"
  shows "loop_body (emails, current_email) (lit ''   '' @ lit ''From:'' @ 32 # s) =
           ((emails, current_email\<lparr>sender := Some s\<rparr>), False)"
proof -
  have "loop_body (emails, current_email) (lit ''   '' @ lit ''From:'' @ 32 # s) =
          ((emails, set_field (lit ''From:'' @ (if s = [] then [] else 32 # s)) current_email), False)"
    using assms by (intro loop_body_field_line) simp_all
  then show ?thesis
    by (simp only: set_field_sender strip_tail_clean [OF assms])
qed

lemma loop_body_date_line:
  assumes "clean s"
  shows "loop_body (emails, current_email) (lit ''   '' @ lit ''Date:'' @ 32 # s) =
           ((emails, current_email\<lparr>date := Some s\<rparr>), False)"
proof -
  have "loop_body (emails, current_email) (lit ''   '' @ lit ''Date:'' @ 32 # s) =
          ((emails, set_field (lit ''Date:'' @ (if s = [] then [] else 32 # s)) current_email), False)"
    using assms by (intro loop_body_field_line) simp_all
  then show ?thesis
    by (simp only: set_field_date strip_tail_clean [OF assms])
qed

lemma loop_body_preview_line:
  assumes "clean s"
  shows "loop_body (emails, current_email) (lit ''   '' @ lit ''Preview:'' @ 32 # s) =
           ((emails, current_email\<lparr>preview := Some s\<rparr>), False)"
proof -
  have "loop_body (emails, current_email) (lit ''   '' @ lit ''Preview:'' @ 32 # s) =
          ((emails, set_field (lit ''Preview:'' @ (if s = [] then [] else 32 # s)) current_email), False)"
    using assms by (intro loop_body_field_line) simp_all
  then show ?thesis
    by (simp only: set_field_preview strip_tail_clean [OF assms])
qed


lemma for_lines_sender:
  "clean_opt v \<Longrightarrow>
   for_lines (emails, e) (field_lines (lit ''From:'') v @ rest) =
     for_lines (emails, case v of None \<Rightarrow> e | Some s \<Rightarrow> e\<lparr>sender := Some s\<rparr>) rest"
  by (cases v) (simp_all add: field_lines_def clean_opt_def for_lines_Cons loop_body_sender_line)

lemma for_lines_date:
  "clean_opt v \<Longrightarrow>
   for_lines (emails, e) (field_lines (lit ''Date:'') v @ rest) =
     for_lines (emails, case v of None \<Rightarrow> e | Some s \<Rightarrow> e\<lparr>date := Some s\<rparr>) rest"
  by (cases v) (simp_all add: field_lines_def clean_opt_def for_lines_Cons loop_body_date_line)

lemma for_lines_preview:
  "clean_opt v \<Longrightarrow>
   for_lines (emails, e) (field_lines (lit ''Preview:'') v @ rest) =
     for_lines (emails, case v of None \<Rightarrow> e | Some s \<Rightarrow> e\<lparr>preview := Some s\<rparr>) rest"
  by (cases v) (simp_all add: field_lines_def clean_opt_def for_lines_Cons loop_body_preview_line)

lemma well_formed_truthy: "well_formed r \<Longrightarrow> truthy r"
  by (auto simp: well_formed_def truthy_def empty_dict_def)

lemma for_lines_record:
  assumes "well_formed r"
  shows "for_lines (emails, current_email) (record_lines r @ rest) =
           for_lines (append_if_truthy emails current_email, r) rest"
proof -
  from assms obtain subj flag where sf: "subject r = Some subj" "is_read r = Some flag"
    by (auto simp: well_formed_def)
  with assms have c: "clean subj" "clean_opt (sender r)" "clean_opt (date r)" "clean_opt (preview r)"
    by (simp_all add: well_formed_def clean_opt_def)
  let ?m = "if is_read r = Some True then GLYPH_READ else GLYPH_UNREAD"
  let ?r0 = "\<lparr>subject = Some subj, is_read = Some (?m = GLYPH_READ), sender = None, date = None,
             preview = None\<rparr>"
  have first: "loop_body (emails, current_email) (?m # 32 # subj) =
                 ((append_if_truthy emails current_email, ?r0), False)"
    using c(1) by (intro loop_body_start_line) simp_all
  have flag: "(?m = GLYPH_READ) = flag"
    using sf by (simp add: glyphs)
  have r: "r = (case preview r of None \<Rightarrow> (case date r of None \<Rightarrow> (case sender r of None \<Rightarrow> ?r0
                   | Some a \<Rightarrow> ?r0\<lparr>sender := Some a\<rparr>)
                 | Some b \<Rightarrow> (case sender r of None \<Rightarrow> ?r0 | Some a \<Rightarrow> ?r0\<lparr>sender := Some a\<rparr>)
                     \<lparr>date := Some b\<rparr>)
               | Some c \<Rightarrow> (case date r of None \<Rightarrow> (case sender r of None \<Rightarrow> ?r0
                   | Some a \<Rightarrow> ?r0\<lparr>sender := Some a\<rparr>)
                 | Some b \<Rightarrow> (case sender r of None \<Rightarrow> ?r0 | Some a \<Rightarrow> ?r0\<lparr>sender := Some a\<rparr>)
                     \<lparr>date := Some b\<rparr>)\<lparr>preview := Some c\<rparr>)"
    using sf flag by (cases r) (simp add: glyphs split: option.splits)
  have "for_lines (emails, current_email) (record_lines r @ rest) =
          for_lines (append_if_truthy emails current_email, ?r0)
            (field_lines (lit ''From:'') (sender r) @ field_lines (lit ''Date:'') (date r) @
             field_lines (lit ''Preview:'') (preview r) @ rest)"
    using first sf by (simp add: record_lines_def for_lines_Cons)
  also have "\<dots> = for_lines (append_if_truthy emails current_email, r) rest"
    using c(2-4) by (subst (2) r) (simp add: for_lines_sender for_lines_date for_lines_preview split: option.splits)
  finally show ?thesis .
qed


lemma for_lines_records:
  "\<forall>r\<in>set rs. well_formed r \<Longrightarrow> rs \<noteq> [] \<Longrightarrow>
   for_lines (emails, current_email) (concat (map record_lines rs) @ rest) =
     for_lines (append_if_truthy emails current_email @ butlast rs, last rs) rest"
proof (induction rs arbitrary: emails current_email)
  case Nil
  then show ?case by simp
next
  case (Cons r rs)
  then have r: "well_formed r" by simp
  have step: "for_lines (emails, current_email) (concat (map record_lines (r # rs)) @ rest) =
                for_lines (append_if_truthy emails current_email, r)
                  (concat (map record_lines rs) @ rest)"
    using for_lines_record [OF r, of emails current_email "concat (map record_lines rs) @ rest"]
    by simp
  show ?case
  proof (cases "rs = []")
    case True
    with step show ?thesis by simp
  next
    case False
    with Cons have "for_lines (append_if_truthy emails current_email, r)
                      (concat (map record_lines rs) @ rest) =
                    for_lines (append_if_truthy (append_if_truthy emails current_email) r @ butlast rs,
                               last rs) rest"
      by simp
    with step False r show ?thesis
      by (simp add: append_if_truthy_def well_formed_truthy)
  qed
qed

lemma lit_no_newline:
  "10 \<notin> set (lit ''   '')" "10 \<notin> set (lit ''From:'')" "10 \<notin> set (lit ''Date:'')"
  "10 \<notin> set (lit ''Preview:'')" "10 \<notin> set (lit ''TOTAL EMAILS: '')"
  by (simp_all add: lit_def)

lemma field_lines_no_newline:
  "clean_opt v \<Longrightarrow> 10 \<notin> set name \<Longrightarrow> \<forall>l\<in>set (field_lines name v). 10 \<notin> set l"
  by (cases v) (simp_all add: field_lines_def clean_opt_def clean_def lit_no_newline)

lemma record_lines_no_newline:
  assumes "well_formed r"
  shows "\<forall>l\<in>set (record_lines r). 10 \<notin> set l"
proof -
  from assms have c: "clean_opt (sender r)" "clean_opt (date r)" "clean_opt (preview r)"
    by (simp_all add: well_formed_def)
  have "\<forall>l\<in>set (field_lines (lit ''From:'') (sender r)). 10 \<notin> set l"
    by (rule field_lines_no_newline) (rule c(1), rule lit_no_newline(2))
  moreover have "\<forall>l\<in>set (field_lines (lit ''Date:'') (date r)). 10 \<notin> set l"
    by (rule field_lines_no_newline) (rule c(2), rule lit_no_newline(3))
  moreover have "\<forall>l\<in>set (field_lines (lit ''Preview:'') (preview r)). 10 \<notin> set l"
    by (rule field_lines_no_newline) (rule c(3), rule lit_no_newline(4))
  moreover from assms have "10 \<notin> set (case subject r of Some s \<Rightarrow> s | None \<Rightarrow> [])"
    by (auto simp: well_formed_def clean_opt_def clean_def)
  ultimately show ?thesis
    by (simp add: record_lines_def glyphs ball_Un)
qed

lemma documented_lines_no_newline:
  "\<forall>r\<in>set rs. well_formed r \<Longrightarrow> \<forall>l\<in>set (documented_lines rs). 10 \<notin> set l"
  by (auto simp: documented_lines_def record_lines_no_newline lit_no_newline str_nat_def
        digits_no_newline)

lemma total_line_terminator: "is_terminator (lit ''TOTAL EMAILS: '' @ str_nat n)"
proof -
  have "lit ''TOTAL EMAILS: '' @ str_nat n = lit ''TOTAL EMAILS'' @ (lit '': '' @ str_nat n)"
    by (simp add: lit_def)
  moreover have "strip (lit ''TOTAL EMAILS'' @ (lit '': '' @ str_nat n)) =
                 lit ''TOTAL EMAILS'' @ rstrip (lit '': '' @ str_nat n)"
    by (rule strip_prefix) (simp_all add: lit_def isspace_def)
  ultimately show ?thesis
    by (simp only: is_terminator_def startswith_append)
qed

text \<open>
  C9, as the code has it: for every list of records that each have a subject and a read
  flag and whose texts have no newline and no leading or trailing whitespace, parsing the
  serialized list gives the list back, in the same order.
\<close>

theorem round_trip_well_formed:
  assumes "\<forall>r\<in>set rs. well_formed r"
  shows "parse_email_list (serialize_documented rs) = rs"
proof -
  let ?total = "lit ''TOTAL EMAILS: '' @ str_nat (length rs)"
  have "split_nl (serialize_documented rs) = documented_lines rs @ [[]]"
    unfolding serialize_documented_def using assms
    by (intro split_nl_lines documented_lines_no_newline)
  then have p: "parse_email_list (serialize_documented rs) =
                  final_append (for_lines ([], empty_dict)
                    (concat (map record_lines rs) @ ?total # [[]]))"
    by (simp add: parse_email_list_def parse_lines_def documented_lines_def)
  show ?thesis
  proof (cases "rs = []")
    case True
    with p show ?thesis
      by (simp add: for_lines_terminator total_line_terminator final_append_def
            append_if_truthy_def truthy_def)
  next
    case False
    with assms have "for_lines ([], empty_dict) (concat (map record_lines rs) @ ?total # [[]]) =
                     for_lines (butlast rs, last rs) (?total # [[]])"
      by (simp add: for_lines_records append_if_truthy_def truthy_def)
    moreover from assms False have "truthy (last rs)"
      by (simp add: well_formed_truthy)
    ultimately show ?thesis
      using p False
      by (simp add: for_lines_terminator total_line_terminator final_append_def
            append_if_truthy_def)
  qed
qed

theorem round_trip_well_formed_witness:
  "parse_email_list (serialize_documented [hello_record, seen_record, hello_record]) =
     [hello_record, seen_record, hello_record]"
proof -
  have "well_formed hello_record"
    unfolding well_formed_def hello_record_def clean_opt_def
    apply (simp del: not_None_eq)
    apply (simp add: clean_def strip_def lstrip_def rstrip_def isspace_def lit_def)
    done
  moreover have "well_formed seen_record"
    unfolding well_formed_def seen_record_def clean_opt_def
    apply (simp del: not_None_eq)
    apply (simp add: clean_def strip_def lstrip_def rstrip_def isspace_def lit_def)
    done
  ultimately show ?thesis
    using round_trip_well_formed [of "[hello_record, seen_record, hello_record]"] by simp
qed

lemma serialize_padded:
  "serialize_documented [padded_record] =
     GLYPH_UNREAD # lit ''  a'' @ [10] @ lit ''TOTAL EMAILS: 1'' @ [10]"
  by (simp add: padded_record_def serialize_documented_def documented_lines_def record_lines_def
        field_lines_def str_nat_def digits.simps lit_def)

text \<open>
  C9 as stated, for every list of records: a subject with a leading space is serialized
  with it and parsed without it, so the record does not come back.
\<close>

theorem padded_subject_not_restored:
  "parse_email_list (serialize_documented [padded_record]) =
     [\<lparr>subject = Some (lit ''a''), is_read = Some False, sender = None, date = None,
       preview = None\<rparr>] \<and>
   parse_email_list (serialize_documented [padded_record]) \<noteq> [padded_record]"
  by (simp add: serialize_padded) (simp add: padded_record_def evaluate)

end
